theory Spec2Isabelle
  imports Complex_Main "HOL-Library.Multiset"
begin

section \<open>Leave-one-out regression of the music-ratings notebook\<close>

text \<open>
  The notebook \<^verbatim>\<open>analysis.ipynb\<close> defines two functions, \<^verbatim>\<open>loocv_regression\<close> and
  \<^verbatim>\<open>evaluate\<close>, on pandas data frames. A data frame is modelled as the list of its rows
  in order, each row a pair of its index label and its values: pandas keeps the row order
  and allows a label to occur more than once. A cell that holds a finite floating-point
  number is the \<open>real\<close> that the number denotes; a cell that may be \<^verbatim>\<open>NaN\<close> is a
  \<open>real option\<close>, with \<open>None\<close> for \<^verbatim>\<open>NaN\<close>. \<^verbatim>\<open>loocv_regression\<close> moves and compares
  such numbers and computes nothing with them. \<^verbatim>\<open>evaluate\<close> computes, in double
  precision, and there every operation rounds its result.
  Exceptions are values of the type \<open>error\<close>, returned on the left of a sum.
\<close>

datatype error = KeyError | IndexError | ValueError | InvalidIndexError

text \<open>\<^verbatim>\<open>data\<close>: the independent variables, with missing entries.\<close>
type_synonym 'k features = "('k \<times> real option list) list"

text \<open>\<^verbatim>\<open>data_f\<close>: the independent variables after \<^verbatim>\<open>fillna\<close>.\<close>
type_synonym 'k filled = "('k \<times> real list) list"

text \<open>\<^verbatim>\<open>my_ratings\<close>: the index and the column \<^verbatim>\<open>SCORE\<close>, the only column that is read.\<close>
type_synonym 'k scores = "('k \<times> real) list"

subsection \<open>The pandas operations that the loop uses\<close>

text \<open>\<^verbatim>\<open>data.fillna(fill)\<close>: a new frame in which every missing entry is \<open>fill\<close>.\<close>

definition fillna :: "real \<Rightarrow> 'k features \<Rightarrow> 'k filled" where
  "fillna fill data =
     map (\<lambda>(k, row). (k, map (\<lambda>v. case v of None \<Rightarrow> fill | Some x \<Rightarrow> x) row)) data"

text \<open>
  \<^verbatim>\<open>df.loc[labels]\<close> with a list of labels: for each requested label in turn, every row
  of the frame that carries it; \<^verbatim>\<open>KeyError\<close> when a requested label is on no row.
\<close>

fun loc :: "('k \<times> 'v) list \<Rightarrow> 'k list \<Rightarrow> error + ('k \<times> 'v) list" where
  "loc df [] = Inr []"
| "loc df (l # ls) =
     (case filter (\<lambda>r. fst r = l) df of
        [] \<Rightarrow> Inl KeyError
      | r # rs \<Rightarrow> (case loc df ls of Inl e \<Rightarrow> Inl e | Inr rest \<Rightarrow> Inr ((r # rs) @ rest)))"

text \<open>
  \<^verbatim>\<open>df.drop(label)\<close>: the frame without the rows that carry the label;
  \<^verbatim>\<open>KeyError\<close> when no row carries it.
\<close>

definition drop_label :: "'k \<Rightarrow> ('k \<times> 'v) list \<Rightarrow> error + ('k \<times> 'v) list" where
  "drop_label l df =
     (if l \<in> set (map fst df) then Inr (filter (\<lambda>r. fst r \<noteq> l) df) else Inl KeyError)"

text \<open>
  \<^verbatim>\<open>sort_values("prediction", ascending=False)\<close>: the rows by descending prediction.
  The order that pandas gives to rows with equal predictions is not fixed by the call
  (its default sort keeps their order in a short frame only); the model keeps them in
  their original order, and nothing below rests on the order of ties.
\<close>

definition sort_values :: "('k \<times> real) list \<Rightarrow> ('k \<times> real) list" where
  "sort_values df = sort_key (\<lambda>r. - snd r) df"

subsection \<open>The model object\<close>

text \<open>
  The argument \<^verbatim>\<open>model\<close> is any object with \<^verbatim>\<open>fit(X, y)\<close> and \<^verbatim>\<open>predict(X)\<close>; the
  notebook passes scikit-learn's \<^verbatim>\<open>Ridge(alpha=100)\<close>, which is not part of the
  repository. The object is a state of an arbitrary type \<open>'m\<close>, and the two methods are
  parameters of the embedding: \<open>fit\<close> updates the object in place, so it returns the new
  state, and either method may raise.
\<close>

type_synonym 'm fit = "'m \<Rightarrow> real list list \<Rightarrow> real list \<Rightarrow> error + 'm"
type_synonym 'm predict = "'m \<Rightarrow> real list list \<Rightarrow> error + real list"

subsection \<open>\<^verbatim>\<open>loocv_regression\<close>\<close>

text \<open>
  The variables that the loop updates: the two result lists, the model object, and the
  lines written by \<^verbatim>\<open>print\<close> (one per fold: the label and the prediction). The counter
  \<^verbatim>\<open>i\<close> of the source is incremented and never read, and is left out.
\<close>

record ('k, 'm) loop_state =
  albums :: "'k list"
  predictions :: "real list"
  model :: 'm
  printed :: "('k \<times> real) list"

text \<open>One pass through the body of the \<^verbatim>\<open>for\<close> loop, for the row labelled \<open>index\<close>.\<close>

definition fold_step ::
  "'m fit \<Rightarrow> 'm predict \<Rightarrow> 'k filled \<Rightarrow> 'k scores \<Rightarrow> 'k \<Rightarrow> ('k, 'm) loop_state
     \<Rightarrow> error + ('k, 'm) loop_state" where
  "fold_step fit predict data_f my_ratings index st =
     (case loc data_f (map fst my_ratings) of Inl e \<Rightarrow> Inl e | Inr sel \<Rightarrow>
      case drop_label index sel of Inl e \<Rightarrow> Inl e | Inr X \<Rightarrow>
      case drop_label index my_ratings of Inl e \<Rightarrow> Inl e | Inr y \<Rightarrow>
      case fit (model st) (map snd X) (map snd y) of Inl e \<Rightarrow> Inl e | Inr m \<Rightarrow>
      case loc data_f [index] of Inl e \<Rightarrow> Inl e | Inr row_df \<Rightarrow>
      case predict m (map snd row_df) of Inl e \<Rightarrow> Inl e | Inr pred \<Rightarrow>
      case pred of [] \<Rightarrow> Inl IndexError | p # _ \<Rightarrow>
        Inr \<lparr>albums = albums st @ [index], predictions = predictions st @ [p],
             model = m, printed = printed st @ [(index, p)]\<rparr>)"

text \<open>\<^verbatim>\<open>for index, _ in my_ratings.iterrows()\<close>, over the rows still to visit.\<close>

fun iterrows ::
  "'m fit \<Rightarrow> 'm predict \<Rightarrow> 'k filled \<Rightarrow> 'k scores \<Rightarrow> 'k scores \<Rightarrow> ('k, 'm) loop_state
     \<Rightarrow> error + ('k, 'm) loop_state" where
  "iterrows fit predict data_f my_ratings [] st = Inr st"
| "iterrows fit predict data_f my_ratings (r # rest) st =
     (case fold_step fit predict data_f my_ratings (fst r) st of
        Inl e \<Rightarrow> Inl e
      | Inr st' \<Rightarrow> iterrows fit predict data_f my_ratings rest st')"

text \<open>
  What a call leaves behind: the returned frame \<open>result\<close> (index \<^verbatim>\<open>album\<close>, column
  \<^verbatim>\<open>prediction\<close>), the state of the model object after the call, and the printed lines.
\<close>

record ('k, 'm) outcome =
  result :: "('k \<times> real) list"
  model_after :: 'm
  stdout :: "('k \<times> real) list"

text \<open>The argument \<^verbatim>\<open>fill\<close> is optional; \<open>None\<close> is a call that does not pass it.\<close>

definition fill_value :: "real option \<Rightarrow> real" where
  "fill_value fill = (case fill of None \<Rightarrow> 2 | Some v \<Rightarrow> v)"

definition loocv_regression ::
  "'m fit \<Rightarrow> 'm predict \<Rightarrow> 'k features \<Rightarrow> 'k scores \<Rightarrow> 'm \<Rightarrow> real option
     \<Rightarrow> error + ('k, 'm) outcome" where
  "loocv_regression fit predict data my_ratings mdl fill =
     (let data_f = fillna (fill_value fill) data in
      case iterrows fit predict data_f my_ratings my_ratings
             \<lparr>albums = [], predictions = [], model = mdl, printed = []\<rparr> of
        Inl e \<Rightarrow> Inl e
      | Inr st \<Rightarrow>
          Inr \<lparr>result = sort_values (zip (albums st) (predictions st)),
               model_after = model st, stdout = printed st\<rparr>)"

subsection \<open>Double-precision arithmetic\<close>

text \<open>
  The result of an operation on doubles: a finite number, an infinity, or \<^verbatim>\<open>NaN\<close>. The
  two zeros are not told apart; they compare equal, and nothing below divides by a zero
  that could be negative.
\<close>

datatype f64 = Finite real | PInf | NInf | NaN

text \<open>
  Rounding to the nearest double, ties to the even significand. A double is a multiple of
  its unit in the last place, \<open>2\<close> to the power \<open>ulp_exponent\<close>: 52 binary places below the
  leading bit of the number, and never below \<open>2\<^sup>-\<^sup>1\<^sup>0\<^sup>7\<^sup>4\<close>, the smallest subnormal. \<open>rne\<close>
  rounds to the nearest integer, ties to even. A result that rounds to \<open>2\<^sup>1\<^sup>0\<^sup>2\<^sup>4\<close> or beyond
  overflows to an infinity; a result below half the smallest subnormal underflows to zero.
\<close>

definition rne :: "real \<Rightarrow> int" where
  "rne r =
     (let n = \<lfloor>r\<rfloor>; d = r - of_int n
      in if d < 1 / 2 then n else if 1 / 2 < d then n + 1 else if even n then n else n + 1)"

definition ulp_exponent :: "real \<Rightarrow> int" where
  "ulp_exponent x = max (\<lfloor>log 2 \<bar>x\<bar>\<rfloor> - 52) (- 1074)"

definition round64 :: "real \<Rightarrow> f64" where
  "round64 x =
     (if x = 0 then Finite 0
      else
        let u = 2 powr of_int (ulp_exponent x);
            y = of_int (rne (x / u)) * u
        in if 2 ^ 1024 \<le> \<bar>y\<bar> then (if 0 < x then PInf else NInf) else Finite y)"

text \<open>
  The operations of IEEE 754 that the metrics use. On finite operands each is the exact
  result, rounded; the other equations are the standard's rules for infinities and
  \<^verbatim>\<open>NaN\<close>.
\<close>

fun fneg :: "f64 \<Rightarrow> f64" where
  "fneg (Finite a) = Finite (- a)"
| "fneg PInf = NInf"
| "fneg NInf = PInf"
| "fneg NaN = NaN"

fun fadd :: "f64 \<Rightarrow> f64 \<Rightarrow> f64" where
  "fadd NaN b = NaN"
| "fadd a NaN = NaN"
| "fadd (Finite a) (Finite b) = round64 (a + b)"
| "fadd PInf NInf = NaN"
| "fadd NInf PInf = NaN"
| "fadd PInf b = PInf"
| "fadd a PInf = PInf"
| "fadd NInf b = NInf"
| "fadd a NInf = NInf"

definition fsub :: "f64 \<Rightarrow> f64 \<Rightarrow> f64" where
  "fsub a b = fadd a (fneg b)"

fun fmul :: "f64 \<Rightarrow> f64 \<Rightarrow> f64" where
  "fmul NaN b = NaN"
| "fmul a NaN = NaN"
| "fmul (Finite a) (Finite b) = round64 (a * b)"
| "fmul (Finite a) PInf = (if a = 0 then NaN else if 0 < a then PInf else NInf)"
| "fmul (Finite a) NInf = (if a = 0 then NaN else if 0 < a then NInf else PInf)"
| "fmul PInf (Finite b) = (if b = 0 then NaN else if 0 < b then PInf else NInf)"
| "fmul NInf (Finite b) = (if b = 0 then NaN else if 0 < b then NInf else PInf)"
| "fmul PInf PInf = PInf"
| "fmul PInf NInf = NInf"
| "fmul NInf PInf = NInf"
| "fmul NInf NInf = PInf"

fun fdiv :: "f64 \<Rightarrow> f64 \<Rightarrow> f64" where
  "fdiv NaN b = NaN"
| "fdiv a NaN = NaN"
| "fdiv (Finite a) (Finite b) =
     (if b = 0 then (if a = 0 then NaN else if 0 < a then PInf else NInf)
      else round64 (a / b))"
| "fdiv (Finite a) PInf = Finite 0"
| "fdiv (Finite a) NInf = Finite 0"
| "fdiv PInf (Finite b) = (if 0 \<le> b then PInf else NInf)"
| "fdiv NInf (Finite b) = (if 0 \<le> b then NInf else PInf)"
| "fdiv PInf PInf = NaN"
| "fdiv PInf NInf = NaN"
| "fdiv NInf PInf = NaN"
| "fdiv NInf NInf = NaN"

fun fsqrt :: "f64 \<Rightarrow> f64" where
  "fsqrt (Finite a) = (if a < 0 then NaN else round64 (sqrt a))"
| "fsqrt PInf = PInf"
| "fsqrt NInf = NaN"
| "fsqrt NaN = NaN"

fun f64_nonneg :: "f64 \<Rightarrow> bool" where
  "f64_nonneg (Finite a) = (0 \<le> a)"
| "f64_nonneg PInf = True"
| "f64_nonneg NInf = False"
| "f64_nonneg NaN = False"

text \<open>
  \<^verbatim>\<open>ndarray.sum\<close> and \<^verbatim>\<open>np.average\<close> of a column. numpy adds the elements of a long
  column in blocks, so the order of the additions is its own; the model adds from left to
  right. \<open>f64_nonneg\<close> above is the comparison \<^verbatim>\<open>0 <= x\<close> on doubles.
\<close>

definition np_sum :: "f64 list \<Rightarrow> f64" where
  "np_sum xs = foldl fadd (Finite 0) xs"

definition np_average :: "f64 list \<Rightarrow> f64" where
  "np_average xs = fdiv (np_sum xs) (Finite (real (length xs)))"

subsection \<open>\<^verbatim>\<open>evaluate\<close>\<close>

text \<open>
  \<^verbatim>\<open>pd.concat([predictions, my_ratings], axis = 1)\<close> joins the two frames on their
  index, keeping every label of either (an outer join): the labels of the first frame,
  then those only the second has. A label that one frame lacks gets \<^verbatim>\<open>NaN\<close> in that
  frame's column. Two frames with the same index are put side by side as they are;
  otherwise a frame with a repeated label cannot be re-indexed, and pandas raises
  \<^verbatim>\<open>InvalidIndexError\<close>. A row of the joined frame is its label, its \<^verbatim>\<open>prediction\<close>
  and its \<^verbatim>\<open>SCORE\<close>.
\<close>

definition concat_axis1 ::
  "('k \<times> real) list \<Rightarrow> 'k scores \<Rightarrow> error + ('k \<times> real option \<times> real option) list" where
  "concat_axis1 preds my_ratings =
     (if map fst preds = map fst my_ratings
      then Inr (map (\<lambda>(p, s). (fst p, Some (snd p), Some (snd s))) (zip preds my_ratings))
      else if distinct (map fst preds) \<and> distinct (map fst my_ratings)
      then Inr (map (\<lambda>k. (k, map_of preds k, map_of my_ratings k))
                  (map fst preds @ filter (\<lambda>k. k \<notin> set (map fst preds)) (map fst my_ratings)))
      else Inl InvalidIndexError)"

text \<open>
  The two metrics are scikit-learn's, called with their default arguments. Both validate
  their input first: \<^verbatim>\<open>ValueError\<close> for a \<^verbatim>\<open>NaN\<close>, for no sample at all, and for
  two arrays of different lengths.
\<close>

definition check_reg_targets ::
  "real option list \<Rightarrow> real option list \<Rightarrow> error + (real list \<times> real list)" where
  "check_reg_targets y_true y_pred =
     (case those y_true of None \<Rightarrow> Inl ValueError | Some t \<Rightarrow>
      case those y_pred of None \<Rightarrow> Inl ValueError | Some p \<Rightarrow>
        if t = [] \<or> p = [] \<or> length t \<noteq> length p then Inl ValueError else Inr (t, p))"

text \<open>\<^verbatim>\<open>(y_true - y_pred) ** 2\<close>, element by element.\<close>

definition squared_errors :: "real list \<Rightarrow> real list \<Rightarrow> f64 list" where
  "squared_errors t p =
     map (\<lambda>(a, b). let r = fsub (Finite a) (Finite b) in fmul r r) (zip t p)"

text \<open>
  \<^verbatim>\<open>r2_score(y_true, y_pred)\<close>. With fewer than two samples it warns and returns
  \<^verbatim>\<open>NaN\<close>. Otherwise the score is \<open>1 - numerator / denominator\<close> where both are
  non-zero; where the denominator is zero the library does not divide: the score is
  \<open>0\<close> for a non-zero numerator, and \<open>1\<close> whenever the numerator is zero. The sample
  weight is the constant 1, and the final average is over the one output column; neither
  changes a value.
\<close>

definition r2_score :: "real option list \<Rightarrow> real option list \<Rightarrow> error + f64" where
  "r2_score y_true y_pred =
     (case check_reg_targets y_true y_pred of Inl e \<Rightarrow> Inl e | Inr (t, p) \<Rightarrow>
        if length p < 2 then Inr NaN
        else
          let numerator = np_sum (squared_errors t p);
              average = np_average (map Finite t);
              denominator = np_sum (map (\<lambda>a. let d = fsub (Finite a) average in fmul d d) t)
          in Inr (if numerator \<noteq> Finite 0 \<and> denominator \<noteq> Finite 0
                  then fsub (Finite 1) (fdiv numerator denominator)
                  else if numerator \<noteq> Finite 0 then Finite 0
                  else Finite 1))"

text \<open>\<^verbatim>\<open>mean_squared_error(y_true, y_pred, squared = False)\<close>: the root of the mean square.\<close>

definition mean_squared_error :: "real option list \<Rightarrow> real option list \<Rightarrow> error + f64" where
  "mean_squared_error y_true y_pred =
     (case check_reg_targets y_true y_pred of Inl e \<Rightarrow> Inl e | Inr (t, p) \<Rightarrow>
        Inr (fsqrt (np_average (squared_errors t p))))"

definition evaluate :: "('k \<times> real) list \<Rightarrow> 'k scores \<Rightarrow> error + (f64 \<times> f64)" where
  "evaluate preds my_ratings =
     (case concat_axis1 preds my_ratings of Inl e \<Rightarrow> Inl e | Inr df \<Rightarrow>
      case r2_score (map (\<lambda>r. snd (snd r)) df) (map (\<lambda>r. fst (snd r)) df) of
        Inl e \<Rightarrow> Inl e | Inr r2 \<Rightarrow>
      case mean_squared_error (map (\<lambda>r. snd (snd r)) df) (map (\<lambda>r. fst (snd r)) df) of
        Inl e \<Rightarrow> Inl e | Inr rmse \<Rightarrow> Inr (r2, rmse))"

subsection \<open>Model objects for the examples\<close>

text \<open>
  Three small model objects instantiate the parameters. The first two predict one constant
  for every row and keep it as their state: \<open>fit_sum\<close> replaces the state by the sum of
  the training targets, as an estimator that starts afresh at every fit does;
  \<open>fit_warm\<close> adds that sum to the state it finds, as an estimator that resumes from its
  previous fit does. The third keeps the list of the training sets it was fit on.
\<close>

definition fit_sum :: "real fit" where
  "fit_sum m X y = Inr (sum_list y)"

definition fit_warm :: "real fit" where
  "fit_warm m X y = Inr (m + sum_list y)"

definition predict_state :: "real predict" where
  "predict_state m X = Inr (map (\<lambda>row. m) X)"

definition fit_record :: "(real list list \<times> real list) list fit" where
  "fit_record m X y = Inr (m @ [(X, y)])"

definition predict_zero :: "(real list list \<times> real list) list predict" where
  "predict_zero m X = Inr (map (\<lambda>row. 0) X)"

text \<open>
  Two more model objects. \<open>fit_strict\<close> is \<open>fit_sum\<close> with the input check of real
  estimators: it refuses a training set without rows, or with another number of rows than
  of targets. \<open>predict_with f\<close> predicts \<open>f row\<close> for every row, whatever the state, so that
  the predictions show the rows that \<^verbatim>\<open>predict\<close> was given.
\<close>

definition fit_strict :: "real fit" where
  "fit_strict m X y =
     (if X = [] \<or> length X \<noteq> length y then Inl ValueError else Inr (sum_list y))"

definition predict_with :: "(real list \<Rightarrow> real) \<Rightarrow> 'm predict" where
  "predict_with f m X = Inr (map f X)"

subsection \<open>The default model object\<close>

text \<open>
  The default \<^verbatim>\<open>model=Ridge(alpha=100)\<close> is evaluated once, when the \<^verbatim>\<open>def\<close> statement
  runs, and every call that passes no model works on that one object. Two such calls, one
  after the other, are therefore a function of the state of the object before the first:
  the second call finds it as the first left it. An exception raised by the first call
  ends the program before the second.
\<close>

definition successive_calls ::
  "'m fit \<Rightarrow> 'm predict \<Rightarrow> 'k features \<Rightarrow> 'k scores \<Rightarrow> real option
     \<Rightarrow> 'k features \<Rightarrow> 'k scores \<Rightarrow> real option \<Rightarrow> 'm
     \<Rightarrow> error + ('k, 'm) outcome \<times> ('k, 'm) outcome" where
  "successive_calls fit predict data1 my_ratings1 fill1 data2 my_ratings2 fill2 default_model =
     (case loocv_regression fit predict data1 my_ratings1 default_model fill1 of
        Inl e \<Rightarrow> Inl e
      | Inr out1 \<Rightarrow>
          (case loocv_regression fit predict data2 my_ratings2 (model_after out1) fill2 of
             Inl e \<Rightarrow> Inl e
           | Inr out2 \<Rightarrow> Inr (out1, out2)))"

subsection \<open>The folds in the words of the specification\<close>

text \<open>
  The specification describes a fold by what it trains on. For a feature matrix with
  unique keys: the row of a key with every missing entry replaced by the fill value; the
  training features of the fold that holds out \<open>k\<close>, the filled rows of all target keys
  except \<open>k\<close>; and its training targets, the target values of all keys except \<open>k\<close>.
\<close>

definition spec_filled_row :: "real \<Rightarrow> 'k features \<Rightarrow> 'k \<Rightarrow> real list" where
  "spec_filled_row c data k =
     map (\<lambda>v. case v of None \<Rightarrow> c | Some x \<Rightarrow> x) (the (map_of data k))"

definition spec_training_features ::
  "real \<Rightarrow> 'k features \<Rightarrow> 'k scores \<Rightarrow> 'k \<Rightarrow> real list list" where
  "spec_training_features c data my_ratings k =
     map (spec_filled_row c data) (filter (\<lambda>k'. k' \<noteq> k) (map fst my_ratings))"

definition spec_training_targets :: "'k scores \<Rightarrow> 'k \<Rightarrow> real list" where
  "spec_training_targets my_ratings k = map snd (filter (\<lambda>r. fst r \<noteq> k) my_ratings)"

section \<open>Properties\<close>

subsection \<open>The pandas operations\<close>

lemma loc_missing:
  "\<not> set ls \<subseteq> set (map fst df) \<Longrightarrow> loc df ls = Inl KeyError"
proof (induction ls)
  case Nil
  then show ?case by simp
next
  case (Cons l ls)
  show ?case
  proof (cases "filter (\<lambda>r. fst r = l) df")
    case Nil
    then show ?thesis by simp
  next
    case (Cons r rs)
    then have "r \<in> set (filter (\<lambda>r. fst r = l) df)" by simp
    then have "l \<in> set (map fst df)" by auto
    with Cons.prems have "\<not> set ls \<subseteq> set (map fst df)" by simp
    with Cons.IH have "loc df ls = Inl KeyError" .
    with Cons show ?thesis by simp
  qed
qed

lemma map_fst_fillna: "map fst (fillna fill data) = map fst data"
  by (simp add: fillna_def case_prod_unfold comp_def)

lemma loc_present:
  "set ls \<subseteq> set (map fst df) \<Longrightarrow>
   loc df ls = Inr (concat (map (\<lambda>l. filter (\<lambda>r. fst r = l) df) ls))"
proof (induction ls)
  case Nil
  then show ?case by simp
next
  case (Cons l ls)
  from Cons.prems have "l \<in> fst ` set df" by simp
  then have "filter (\<lambda>r. fst r = l) df \<noteq> []"
    by (auto simp: filter_empty_conv)
  then obtain r rs where "filter (\<lambda>r. fst r = l) df = r # rs"
    by (cases "filter (\<lambda>r. fst r = l) df") auto
  moreover from Cons have "loc df ls = Inr (concat (map (\<lambda>l. filter (\<lambda>r. fst r = l) df) ls))"
    by simp
  ultimately show ?case by simp
qed

lemma drop_label_present:
  "l \<in> set (map fst df) \<Longrightarrow> drop_label l df = Inr (filter (\<lambda>r. fst r \<noteq> l) df)"
  by (simp add: drop_label_def)

lemma fst_concat_rows:
  "set ls \<subseteq> set (map fst df) \<Longrightarrow>
   set (map fst (concat (map (\<lambda>l. filter (\<lambda>r. fst r = l) df) ls))) = set ls"
  by (induction ls) (auto simp: image_iff)

lemma fillna_filter:
  "fillna fill (filter (\<lambda>r. fst r \<in> S) data) = filter (\<lambda>r. fst r \<in> S) (fillna fill data)"
  by (induction data) (auto simp: fillna_def)

lemma loc_filter:
  "set ls \<subseteq> S \<Longrightarrow> loc (filter (\<lambda>r. fst r \<in> S) df) ls = loc df ls"
proof (induction ls)
  case Nil
  then show ?case by simp
next
  case (Cons l ls)
  then have "l \<in> S" by simp
  then have eq: "filter (\<lambda>r. fst r = l) (filter (\<lambda>r. fst r \<in> S) df) = filter (\<lambda>r. fst r = l) df"
    by (auto intro: filter_cong)
  from Cons have "loc (filter (\<lambda>r. fst r \<in> S) df) ls = loc df ls" by simp
  then show ?case by (simp only: loc.simps eq)
qed

subsection \<open>One fold and the loop\<close>

lemma fold_step_present:
  assumes sub: "set (map fst my_ratings) \<subseteq> set (map fst data_f)"
    and idx: "index \<in> set (map fst my_ratings)"
  shows "fold_step fit predict data_f my_ratings index st =
     (case fit (model st)
             (map snd (filter (\<lambda>r. fst r \<noteq> index)
               (concat (map (\<lambda>l. filter (\<lambda>r. fst r = l) data_f) (map fst my_ratings)))))
             (map snd (filter (\<lambda>r. fst r \<noteq> index) my_ratings)) of
        Inl e \<Rightarrow> Inl e
      | Inr m \<Rightarrow>
         (case predict m (map snd (filter (\<lambda>r. fst r = index) data_f)) of
            Inl e \<Rightarrow> Inl e
          | Inr pred \<Rightarrow>
             (case pred of [] \<Rightarrow> Inl IndexError
              | p # _ \<Rightarrow>
                 Inr \<lparr>albums = albums st @ [index], predictions = predictions st @ [p],
                      model = m, printed = printed st @ [(index, p)]\<rparr>)))"
proof -
  let ?sel = "concat (map (\<lambda>l. filter (\<lambda>r. fst r = l) data_f) (map fst my_ratings))"
  have a: "loc data_f (map fst my_ratings) = Inr ?sel"
    using sub by (rule loc_present)
  have "index \<in> set (map fst ?sel)"
    using fst_concat_rows [OF sub] idx by blast
  then have b: "drop_label index ?sel = Inr (filter (\<lambda>r. fst r \<noteq> index) ?sel)"
    by (rule drop_label_present)
  have c: "drop_label index my_ratings = Inr (filter (\<lambda>r. fst r \<noteq> index) my_ratings)"
    using idx by (rule drop_label_present)
  have "set [index] \<subseteq> set (map fst data_f)"
    using sub idx by auto
  then have d: "loc data_f [index] = Inr (filter (\<lambda>r. fst r = index) data_f)"
    using loc_present [of "[index]" data_f] by simp
  show ?thesis
    by (simp only: fold_step_def a b c d sum.case)
qed

lemma fold_step_Inr:
  assumes "fold_step fit predict data_f my_ratings index st = Inr st'"
  shows "\<exists>p. albums st' = albums st @ [index] \<and> predictions st' = predictions st @ [p]
           \<and> printed st' = printed st @ [(index, p)]"
  using assms unfolding fold_step_def
  by (auto split: sum.splits list.splits)

lemma fold_step_filter:
  assumes "set (map fst my_ratings) \<subseteq> S" and "index \<in> S"
  shows "fold_step fit predict (filter (\<lambda>r. fst r \<in> S) data_f) my_ratings index st =
         fold_step fit predict data_f my_ratings index st"
proof -
  from assms(2) have "set [index] \<subseteq> S" by simp
  then have "loc (filter (\<lambda>r. fst r \<in> S) data_f) [index] = loc data_f [index]"
    by (rule loc_filter)
  moreover have "loc (filter (\<lambda>r. fst r \<in> S) data_f) (map fst my_ratings) = loc data_f (map fst my_ratings)"
    using assms(1) by (rule loc_filter)
  ultimately show ?thesis
    by (simp only: fold_step_def)
qed

lemma iterrows_filter:
  assumes "set (map fst my_ratings) \<subseteq> S"
  shows "set (map fst rest) \<subseteq> S \<Longrightarrow>
    iterrows fit predict (filter (\<lambda>r. fst r \<in> S) data_f) my_ratings rest st =
    iterrows fit predict data_f my_ratings rest st"
proof (induction rest arbitrary: st)
  case Nil
  then show ?case by simp
next
  case (Cons r rest)
  then have "fst r \<in> S" by simp
  with assms have "fold_step fit predict (filter (\<lambda>r. fst r \<in> S) data_f) my_ratings (fst r) st =
         fold_step fit predict data_f my_ratings (fst r) st"
    by (rule fold_step_filter)
  with Cons show ?case by (simp split: sum.splits)
qed

lemma filter_label_distinct:
  "distinct (map fst df) \<Longrightarrow> l \<in> set (map fst df) \<Longrightarrow>
   filter (\<lambda>r. fst r = l) df = [(l, the (map_of df l))]"
proof (induction df)
  case Nil
  then show ?case by simp
next
  case (Cons r df)
  show ?case
  proof (cases "fst r = l")
    case True
    with Cons.prems have "l \<notin> fst ` set df" by auto
    then have "filter (\<lambda>r. fst r = l) df = []"
      by (auto simp: filter_empty_conv)
    with True show ?thesis by (cases r) simp
  next
    case False
    with Cons show ?thesis by (cases r) auto
  qed
qed

lemma rows_distinct:
  assumes "distinct (map fst df)"
  shows "set ls \<subseteq> set (map fst df) \<Longrightarrow>
    concat (map (\<lambda>l. filter (\<lambda>r. fst r = l) df) ls) = map (\<lambda>l. (l, the (map_of df l))) ls"
  using assms by (induction ls) (simp_all add: filter_label_distinct)

lemma snd_filter_rows:
  "map snd (filter (\<lambda>r. fst r \<noteq> k) (map (\<lambda>l. (l, g l)) ls)) = map g (filter (\<lambda>l. l \<noteq> k) ls)"
  by (induction ls) simp_all

lemma iterrows_record:
  assumes sub: "set (map fst my_ratings) \<subseteq> set (map fst data_f)"
  shows "set (map fst rest) \<subseteq> set (map fst my_ratings) \<Longrightarrow>
    \<exists>st'. iterrows fit_record predict_zero data_f my_ratings rest st = Inr st' \<and>
      model st' = model st @
        map (\<lambda>k. (map snd (filter (\<lambda>r. fst r \<noteq> k)
                     (concat (map (\<lambda>l. filter (\<lambda>r. fst r = l) data_f) (map fst my_ratings)))),
                  map snd (filter (\<lambda>r. fst r \<noteq> k) my_ratings)))
          (map fst rest)"
proof (induction rest arbitrary: st)
  case Nil
  then show ?case by simp
next
  case (Cons r rest)
  then have idx: "fst r \<in> set (map fst my_ratings)" by simp
  from sub idx have "fst r \<in> fst ` set data_f" by auto
  then have "filter (\<lambda>q. fst q = fst r) data_f \<noteq> []"
    by (force simp: filter_empty_conv)
  then obtain q qs where q: "filter (\<lambda>q. fst q = fst r) data_f = q # qs"
    by (cases "filter (\<lambda>q. fst q = fst r) data_f") auto
  let ?X = "map snd (filter (\<lambda>q. fst q \<noteq> fst r)
               (concat (map (\<lambda>l. filter (\<lambda>r. fst r = l) data_f) (map fst my_ratings))))"
  let ?y = "map snd (filter (\<lambda>q. fst q \<noteq> fst r) my_ratings)"
  let ?st1 = "\<lparr>albums = albums st @ [fst r], predictions = predictions st @ [0],
               model = model st @ [(?X, ?y)], printed = printed st @ [(fst r, 0)]\<rparr>"
  have step: "fold_step fit_record predict_zero data_f my_ratings (fst r) st = Inr ?st1"
    unfolding fold_step_present [OF sub idx]
    by (simp add: fit_record_def predict_zero_def q)
  from Cons.prems have "set (map fst rest) \<subseteq> set (map fst my_ratings)" by simp
  from Cons.IH [OF this, of ?st1] obtain st' where
    "iterrows fit_record predict_zero data_f my_ratings rest ?st1 = Inr st'" and
    "model st' = model ?st1 @
        map (\<lambda>k. (map snd (filter (\<lambda>r. fst r \<noteq> k)
                     (concat (map (\<lambda>l. filter (\<lambda>r. fst r = l) data_f) (map fst my_ratings)))),
                  map snd (filter (\<lambda>r. fst r \<noteq> k) my_ratings)))
          (map fst rest)"
    by blast
  with step show ?case by simp
qed

lemma fold_step_forget:
  assumes "\<forall>m m' X y. fit m X y = fit m' X y"
    and "albums st = albums st2" "predictions st = predictions st2" "printed st = printed st2"
  shows "fold_step fit predict data_f my_ratings index st =
         fold_step fit predict data_f my_ratings index st2"
proof -
  from assms(1) have "fit (model st) X y = fit (model st2) X y" for X y
    by blast
  with assms(2-) show ?thesis
    by (simp only: fold_step_def)
qed

lemma iterrows_forget:
  assumes "\<forall>m m' X y. fit m X y = fit m' X y"
    and "albums st = albums st2" "predictions st = predictions st2" "printed st = printed st2"
  shows "map_sum id (\<lambda>s. (albums s, predictions s, printed s))
           (iterrows fit predict data_f my_ratings rest st) =
         map_sum id (\<lambda>s. (albums s, predictions s, printed s))
           (iterrows fit predict data_f my_ratings rest st2) \<and>
         (rest \<noteq> [] \<longrightarrow> iterrows fit predict data_f my_ratings rest st =
           iterrows fit predict data_f my_ratings rest st2)"
proof (cases rest)
  case Nil
  with assms show ?thesis by simp
next
  case (Cons r rest')
  from assms have "fold_step fit predict data_f my_ratings (fst r) st =
         fold_step fit predict data_f my_ratings (fst r) st2"
    by (rule fold_step_forget)
  with Cons show ?thesis by simp
qed

lemma map_of_fillna:
  "map_of (fillna c data) k =
     map_option (map (\<lambda>v. case v of None \<Rightarrow> c | Some x \<Rightarrow> x)) (map_of data k)"
  by (induction data) (auto simp: fillna_def)

lemma filled_row_fillna:
  "k \<in> set (map fst data) \<Longrightarrow> the (map_of (fillna c data) k) = spec_filled_row c data k"
proof -
  assume "k \<in> set (map fst data)"
  then have "map_of data k \<noteq> None"
    by (simp add: map_of_eq_None_iff)
  then show ?thesis
    by (auto simp: map_of_fillna spec_filled_row_def)
qed

lemma fold_step_spec:
  assumes dist: "distinct (map fst data)"
    and sub: "set (map fst my_ratings) \<subseteq> set (map fst data)"
    and idx: "k \<in> set (map fst my_ratings)"
  shows "fold_step fit predict (fillna c data) my_ratings k st =
     (case fit (model st) (spec_training_features c data my_ratings k)
             (spec_training_targets my_ratings k) of
        Inl e \<Rightarrow> Inl e
      | Inr m \<Rightarrow>
         (case predict m [spec_filled_row c data k] of
            Inl e \<Rightarrow> Inl e
          | Inr pred \<Rightarrow>
             (case pred of [] \<Rightarrow> Inl IndexError
              | p # _ \<Rightarrow>
                 Inr \<lparr>albums = albums st @ [k], predictions = predictions st @ [p],
                      model = m, printed = printed st @ [(k, p)]\<rparr>)))"
proof -
  let ?df = "fillna c data"
  have sub': "set (map fst my_ratings) \<subseteq> set (map fst ?df)"
    using sub by (simp add: map_fst_fillna)
  have dist': "distinct (map fst ?df)"
    using dist by (simp add: map_fst_fillna)
  have rows: "concat (map (\<lambda>l. filter (\<lambda>r. fst r = l) ?df) (map fst my_ratings)) =
      map (\<lambda>l. (l, the (map_of ?df l))) (map fst my_ratings)"
    using dist' sub' by (rule rows_distinct)
  have "map (\<lambda>l. the (map_of ?df l)) (filter (\<lambda>l. l \<noteq> k) (map fst my_ratings)) =
        map (spec_filled_row c data) (filter (\<lambda>l. l \<noteq> k) (map fst my_ratings))"
    using sub by (intro map_cong refl filled_row_fillna) auto
  then have X: "map snd (filter (\<lambda>r. fst r \<noteq> k)
        (concat (map (\<lambda>l. filter (\<lambda>r. fst r = l) ?df) (map fst my_ratings)))) =
      spec_training_features c data my_ratings k"
    unfolding rows snd_filter_rows spec_training_features_def .
  have kd: "k \<in> set (map fst ?df)"
    using sub' idx by blast
  have "filter (\<lambda>r. fst r = k) ?df = [(k, the (map_of ?df k))]"
    using dist' kd by (rule filter_label_distinct)
  moreover have "the (map_of ?df k) = spec_filled_row c data k"
    using sub idx by (intro filled_row_fillna) auto
  ultimately have row: "map snd (filter (\<lambda>r. fst r = k) ?df) = [spec_filled_row c data k]"
    by simp
  show ?thesis
    unfolding fold_step_present [OF sub' idx] X row spec_training_targets_def ..
qed

lemma iterrows_printed:
  "iterrows fit predict data_f my_ratings rest st = Inr st' \<Longrightarrow>
   length (albums st) = length (predictions st) \<Longrightarrow>
   zip (albums st) (predictions st) = printed st \<Longrightarrow>
   length (albums st') = length (predictions st') \<and>
   zip (albums st') (predictions st') = printed st' \<and>
   map fst (printed st') = map fst (printed st) @ map fst rest"
proof (induction rest arbitrary: st)
  case Nil
  then show ?case by simp
next
  case (Cons r rest)
  from Cons.prems(1) obtain st1 where
    s1: "fold_step fit predict data_f my_ratings (fst r) st = Inr st1" and
    s2: "iterrows fit predict data_f my_ratings rest st1 = Inr st'"
    by (auto split: sum.splits)
  from fold_step_Inr [OF s1] obtain p where
    p: "albums st1 = albums st @ [fst r]" "predictions st1 = predictions st @ [p]"
       "printed st1 = printed st @ [(fst r, p)]"
    by blast
  from p Cons.prems(2,3) have
    "length (albums st1) = length (predictions st1)"
    "zip (albums st1) (predictions st1) = printed st1"
    by simp_all
  from Cons.IH [OF s2 this] p(3) show ?case by simp
qed

lemma iterrows_last_fit:
  "rest \<noteq> [] \<Longrightarrow> iterrows fit predict data_f my_ratings rest st = Inr st' \<Longrightarrow>
   \<exists>sel X y m. loc data_f (map fst my_ratings) = Inr sel \<and>
     drop_label (fst (last rest)) sel = Inr X \<and>
     drop_label (fst (last rest)) my_ratings = Inr y \<and>
     fit m (map snd X) (map snd y) = Inr (model st')"
proof (induction rest arbitrary: st)
  case Nil
  then show ?case by simp
next
  case (Cons r rest)
  from Cons.prems(2) obtain st1 where
    s1: "fold_step fit predict data_f my_ratings (fst r) st = Inr st1" and
    s2: "iterrows fit predict data_f my_ratings rest st1 = Inr st'"
    by (auto split: sum.splits)
  show ?case
  proof (cases "rest = []")
    case True
    with s2 have "st' = st1" by simp
    with s1 True show ?thesis
      unfolding fold_step_def
      by (auto split: sum.splits list.splits)
  next
    case False
    from Cons.IH [OF False s2] False show ?thesis by simp
  qed
qed

lemma filled_row_width:
  assumes "k \<in> set (map fst data)" and "\<forall>r\<in>set data. length (snd r) = w"
  shows "length (spec_filled_row c data k) = w"
proof -
  from assms(1) have "map_of data k \<noteq> None"
    by (simp add: map_of_eq_None_iff)
  then obtain v where v: "map_of data k = Some v" by auto
  then have "(k, v) \<in> set data" by (rule map_of_SomeD)
  with assms(2) have "length v = w" by force
  with v show ?thesis by (simp add: spec_filled_row_def)
qed

lemma filter_fst_length:
  "length (filter (\<lambda>k'. k' \<noteq> k) (map fst xs)) = length (filter (\<lambda>r. fst r \<noteq> k) xs)"
  by (induction xs) simp_all

lemma iterrows_spec:
  assumes dist: "distinct (map fst data)"
    and sub: "set (map fst my_ratings) \<subseteq> set (map fst data)"
    and two: "\<forall>k\<in>set (map fst my_ratings). \<exists>k'\<in>set (map fst my_ratings). k' \<noteq> k"
    and rect: "\<forall>r\<in>set data. length (snd r) = w"
    and fit_ok: "\<forall>m X y. X \<noteq> [] \<and> length X = length y \<and> (\<forall>row\<in>set X. length row = w) \<longrightarrow>
        (\<exists>m'. fit m X y = Inr m')"
    and predict_ok: "\<forall>m X y m' row. fit m X y = Inr m' \<and> length row = w \<longrightarrow>
        (\<exists>p. predict m' [row] = Inr [p])"
  shows "set (map fst rest) \<subseteq> set (map fst my_ratings) \<Longrightarrow>
    (\<forall>kp\<in>set (printed st). \<exists>m m' ps.
        fit m (spec_training_features c data my_ratings (fst kp))
          (spec_training_targets my_ratings (fst kp)) = Inr m' \<and>
        predict m' [spec_filled_row c data (fst kp)] = Inr (snd kp # ps)) \<Longrightarrow>
    \<exists>st'. iterrows fit predict (fillna c data) my_ratings rest st = Inr st' \<and>
      (\<forall>kp\<in>set (printed st'). \<exists>m m' ps.
        fit m (spec_training_features c data my_ratings (fst kp))
          (spec_training_targets my_ratings (fst kp)) = Inr m' \<and>
        predict m' [spec_filled_row c data (fst kp)] = Inr (snd kp # ps))"
proof (induction rest arbitrary: st)
  case Nil
  then show ?case by simp
next
  case (Cons r rest)
  let ?k = "fst r"
  let ?X = "spec_training_features c data my_ratings ?k"
  let ?y = "spec_training_targets my_ratings ?k"
  from Cons.prems(1) have idx: "?k \<in> set (map fst my_ratings)" by simp
  with two obtain k' where "k' \<in> set (map fst my_ratings)" "k' \<noteq> ?k" by blast
  then have "filter (\<lambda>k'. k' \<noteq> ?k) (map fst my_ratings) \<noteq> []"
    by (auto simp: filter_empty_conv)
  then have ne: "?X \<noteq> []"
    by (simp add: spec_training_features_def)
  have len: "length ?X = length ?y"
    unfolding spec_training_features_def spec_training_targets_def length_map
    by (rule filter_fst_length)
  have wid: "\<forall>row\<in>set ?X. length row = w"
  proof
    fix row assume "row \<in> set ?X"
    then obtain k' where k': "k' \<in> set (map fst my_ratings)"
      and row: "row = spec_filled_row c data k'"
      by (auto simp: spec_training_features_def)
    from k' sub have "k' \<in> set (map fst data)" by blast
    then have "length (spec_filled_row c data k') = w"
      using rect by (rule filled_row_width)
    with row show "length row = w" by simp
  qed
  from fit_ok ne len wid obtain m where m: "fit (model st) ?X ?y = Inr m" by blast
  have "length (spec_filled_row c data ?k) = w"
    using sub idx rect by (intro filled_row_width) auto
  with predict_ok m obtain p where p: "predict m [spec_filled_row c data ?k] = Inr [p]"
    by blast
  let ?st1 = "\<lparr>albums = albums st @ [?k], predictions = predictions st @ [p],
               model = m, printed = printed st @ [(?k, p)]\<rparr>"
  have step: "fold_step fit predict (fillna c data) my_ratings ?k st = Inr ?st1"
    unfolding fold_step_spec [OF dist sub idx] by (simp add: m p)
  have inv: "\<forall>kp\<in>set (printed ?st1). \<exists>m m' ps.
        fit m (spec_training_features c data my_ratings (fst kp))
          (spec_training_targets my_ratings (fst kp)) = Inr m' \<and>
        predict m' [spec_filled_row c data (fst kp)] = Inr (snd kp # ps)"
    using Cons.prems(2) m p by auto
  from Cons.prems(1) have "set (map fst rest) \<subseteq> set (map fst my_ratings)" by simp
  from Cons.IH [OF this inv] step show ?case by simp
qed

lemma iterrows_probe:
  assumes dist: "distinct (map fst data)"
    and sub: "set (map fst my_ratings) \<subseteq> set (map fst data)"
  shows "set (map fst rest) \<subseteq> set (map fst my_ratings) \<Longrightarrow>
    \<exists>st'. iterrows fit_record (predict_with f) (fillna c data) my_ratings rest st = Inr st' \<and>
      model st' = model st @
        map (\<lambda>k. (spec_training_features c data my_ratings k, spec_training_targets my_ratings k))
          (map fst rest) \<and>
      printed st' = printed st @ map (\<lambda>k. (k, f (spec_filled_row c data k))) (map fst rest)"
proof (induction rest arbitrary: st)
  case Nil
  then show ?case by simp
next
  case (Cons r rest)
  let ?k = "fst r"
  from Cons.prems have idx: "?k \<in> set (map fst my_ratings)" by simp
  let ?st1 = "\<lparr>albums = albums st @ [?k],
               predictions = predictions st @ [f (spec_filled_row c data ?k)],
               model = model st @
                 [(spec_training_features c data my_ratings ?k, spec_training_targets my_ratings ?k)],
               printed = printed st @ [(?k, f (spec_filled_row c data ?k))]\<rparr>"
  have step: "fold_step fit_record (predict_with f) (fillna c data) my_ratings ?k st = Inr ?st1"
    unfolding fold_step_spec [OF dist sub idx]
    by (simp add: fit_record_def predict_with_def)
  from Cons.prems have "set (map fst rest) \<subseteq> set (map fst my_ratings)" by simp
  from Cons.IH [OF this, of ?st1] step show ?case by simp
qed

lemmas run_defs =
  loocv_regression_def fold_step_def drop_label_def fillna_def fill_value_def sort_values_def

subsection \<open>Claims about \<^verbatim>\<open>loocv_regression\<close>\<close>

text \<open>
  C1. Whenever the target vector is not empty and one of its keys has no row in the
  feature matrix, the call fails, whatever the model object and the fill value: the first
  fold selects the rows of all target keys with \<^verbatim>\<open>data_f.loc[my_ratings.index]\<close>, and
  pandas raises \<^verbatim>\<open>KeyError\<close> there, the error that the specification names
  \<^verbatim>\<open>KeyMismatch\<close>. No prediction is returned for the other keys.
\<close>

theorem loocv_key_mismatch:
  assumes "my_ratings \<noteq> []"
    and "\<not> set (map fst my_ratings) \<subseteq> set (map fst data)"
  shows "loocv_regression fit predict data my_ratings mdl fill = Inl KeyError"
proof -
  from assms(1) obtain r rest where mr: "my_ratings = r # rest"
    by (cases my_ratings) auto
  have "loc (fillna (fill_value fill) data) (map fst my_ratings) = Inl KeyError"
    using assms(2) by (intro loc_missing) (simp add: map_fst_fillna)
  then have "fold_step fit predict (fillna (fill_value fill) data) my_ratings (fst r) st = Inl KeyError"
    for st :: "('a, 'b) loop_state"
    by (simp add: fold_step_def)
  then have "iterrows fit predict (fillna (fill_value fill) data) my_ratings (r # rest) st = Inl KeyError"
    for st :: "('a, 'b) loop_state"
    by simp
  then show ?thesis
    unfolding loocv_regression_def Let_def mr [symmetric]
    by (simp add: mr)
qed

theorem loocv_key_mismatch_witness:
  "[(''A'', 4), (''B'', 3 :: real)] \<noteq> [] \<and>
   \<not> set (map fst [(''A'', 4), (''B'', 3 :: real)]) \<subseteq> set (map fst [(''A'', [Some 1, Some (2 :: real)])]) \<and>
   loocv_regression fit_sum predict_state [(''A'', [Some 1, Some 2])] [(''A'', 4), (''B'', 3)] 0 None
     = Inl KeyError"
  using loocv_key_mismatch [of "[(''A'', 4), (''B'', 3)]" "[(''A'', [Some 1, Some 2])]"
      fit_sum predict_state 0 None]
  by simp




text \<open>
  C8. The frame that a call returns is in descending order of prediction: of two of its
  rows, the later one never has the greater prediction.
\<close>

theorem loocv_sorted:
  assumes "loocv_regression fit predict data my_ratings mdl fill = Inr out"
  shows "\<forall>i j. i < j \<and> j < length (result out) \<longrightarrow>
           snd (result out ! j) \<le> snd (result out ! i)"
proof -
  from assms have "\<exists>zs. result out = sort_values zs"
    by (auto simp: loocv_regression_def split: sum.splits)
  then have "sorted (map (\<lambda>r. - snd r) (result out))"
    by (auto simp: sort_values_def)
  then show ?thesis
    by (auto simp: sorted_iff_nth_mono less_imp_le dest!: spec)
qed


theorem loocv_sorted_witness:
  "loocv_regression fit_sum predict_state
     [(''A'', [Some 1, None]), (''B'', [None, Some 3])] [(''A'', 4), (''B'', 3)] 0 None =
     Inr \<lparr>result = [(''B'', 4), (''A'', 3)], model_after = 4, stdout = [(''A'', 3), (''B'', 4)]\<rparr> \<and>
   snd ([(''B'', 4 :: real), (''A'', 3)] ! 1) \<le> snd ([(''B'', 4 :: real), (''A'', 3)] ! 0)"
proof -
  have run: "loocv_regression fit_sum predict_state
     [(''A'', [Some 1, None]), (''B'', [None, Some 3])] [(''A'', 4), (''B'', 3)] 0 None =
     Inr \<lparr>result = [(''B'', 4), (''A'', 3)], model_after = 4, stdout = [(''A'', 3), (''B'', 4)]\<rparr>"
    by (simp add: run_defs fit_sum_def predict_state_def)
  from loocv_sorted [OF run] have
    "0 < (1 :: nat) \<and> (1 :: nat) < length [(''B'', 4 :: real), (''A'', 3)] \<longrightarrow>
     snd ([(''B'', 4 :: real), (''A'', 3)] ! 1) \<le> snd ([(''B'', 4 :: real), (''A'', 3)] ! 0)"
    by simp
  with run show ?thesis by simp
qed

text \<open>
  C10. Rows of the feature matrix whose key is not a key of the target vector have no
  influence: deleting them beforehand changes nothing of what the call returns or
  raises, of the state it leaves in the model object, or of what it prints.
\<close>

theorem loocv_ignores_other_rows:
  "loocv_regression fit predict (filter (\<lambda>r. fst r \<in> set (map fst my_ratings)) data) my_ratings mdl fill =
   loocv_regression fit predict data my_ratings mdl fill"
proof -
  have it: "iterrows fit predict
          (filter (\<lambda>r. fst r \<in> set (map fst my_ratings)) (fillna (fill_value fill) data))
          my_ratings my_ratings st =
        iterrows fit predict (fillna (fill_value fill) data) my_ratings my_ratings st"
    for st :: "('a, 'b) loop_state"
    by (rule iterrows_filter) simp_all
  show ?thesis
    by (simp only: loocv_regression_def Let_def fillna_filter it)
qed

text \<open>
  C6. The missing entries are filled once, before the loop. The call is the loop run on one
  frame, the feature matrix with every missing entry replaced by the fill value, 2 when the
  caller passes none; nothing is missing in what the loop is given, so no fold fills
  anything. For a feature matrix with unique keys that has a row for every target key,
  the model object that records its training sets, and a \<^verbatim>\<open>predict\<close> that shows the rows
  it is given, every fold trains on rows filled with that value and predicts from the
  held-out row filled with that value.
\<close>

theorem loocv_filled_once:
  assumes dist: "distinct (map fst data)"
    and sub: "set (map fst my_ratings) \<subseteq> set (map fst data)"
  shows "loocv_regression fit predict data my_ratings mdl fill =
     (case iterrows fit predict
             (map (\<lambda>r. (fst r, map (\<lambda>v. case v of
                                         None \<Rightarrow> (case fill of None \<Rightarrow> 2 | Some c \<Rightarrow> c)
                                       | Some x \<Rightarrow> x) (snd r))) data)
             my_ratings my_ratings
             \<lparr>albums = [], predictions = [], model = mdl, printed = []\<rparr> of
        Inl e \<Rightarrow> Inl e
      | Inr st \<Rightarrow>
          Inr \<lparr>result = sort_values (zip (albums st) (predictions st)),
               model_after = model st, stdout = printed st\<rparr>) \<and>
   (\<exists>out. loocv_regression fit_record (predict_with f) data my_ratings seen fill = Inr out \<and>
      model_after out = seen @
        map (\<lambda>k. (spec_training_features (case fill of None \<Rightarrow> 2 | Some c \<Rightarrow> c) data my_ratings k,
                  spec_training_targets my_ratings k))
          (map fst my_ratings) \<and>
      stdout out =
        map (\<lambda>k. (k, f (spec_filled_row (case fill of None \<Rightarrow> 2 | Some c \<Rightarrow> c) data k)))
          (map fst my_ratings))"
proof -
  let ?c = "case fill of None \<Rightarrow> 2 | Some c \<Rightarrow> c"
  have c: "fill_value fill = ?c"
    by (simp add: fill_value_def)
  have frame: "fillna ?c data =
      map (\<lambda>r. (fst r, map (\<lambda>v. case v of None \<Rightarrow> ?c | Some x \<Rightarrow> x) (snd r))) data"
    by (simp add: fillna_def case_prod_unfold)
  have first: "loocv_regression fit predict data my_ratings mdl fill =
     (case iterrows fit predict
             (map (\<lambda>r. (fst r, map (\<lambda>v. case v of None \<Rightarrow> ?c | Some x \<Rightarrow> x) (snd r))) data)
             my_ratings my_ratings
             \<lparr>albums = [], predictions = [], model = mdl, printed = []\<rparr> of
        Inl e \<Rightarrow> Inl e
      | Inr st \<Rightarrow>
          Inr \<lparr>result = sort_values (zip (albums st) (predictions st)),
               model_after = model st, stdout = printed st\<rparr>)"
    unfolding loocv_regression_def Let_def c frame ..
  let ?st0 = "\<lparr>albums = [], predictions = [], model = seen, printed = []\<rparr>"
  from iterrows_probe [OF dist sub, of my_ratings f ?c ?st0]
  obtain st where
    st: "iterrows fit_record (predict_with f) (fillna ?c data) my_ratings my_ratings ?st0 = Inr st"
    and m: "model st = seen @
        map (\<lambda>k. (spec_training_features ?c data my_ratings k, spec_training_targets my_ratings k))
          (map fst my_ratings)"
    and pr: "printed st = map (\<lambda>k. (k, f (spec_filled_row ?c data k))) (map fst my_ratings)"
    by auto
  have "loocv_regression fit_record (predict_with f) data my_ratings seen fill =
      Inr \<lparr>result = sort_values (zip (albums st) (predictions st)),
           model_after = model st, stdout = printed st\<rparr>"
    by (simp add: loocv_regression_def c st)
  with m pr have "\<exists>out. loocv_regression fit_record (predict_with f) data my_ratings seen fill = Inr out \<and>
      model_after out = seen @
        map (\<lambda>k. (spec_training_features ?c data my_ratings k, spec_training_targets my_ratings k))
          (map fst my_ratings) \<and>
      stdout out = map (\<lambda>k. (k, f (spec_filled_row ?c data k))) (map fst my_ratings)"
    by simp
  with first show ?thesis by blast
qed

theorem loocv_filled_once_witness:
  "\<exists>out. loocv_regression fit_record (predict_with sum_list)
      [(''A'', [Some 1, None]), (''B'', [None, Some 3]), (''C'', [None, None])]
      [(''A'', 4), (''B'', 3)] [] None = Inr out \<and>
    model_after out = [([[2, 3]], [3]), ([[1, 2]], [4])] \<and>
    stdout out = [(''A'', 3), (''B'', 5)]"
proof -
  have "distinct (map fst [(''A'', [Some 1, None]), (''B'', [None, Some 3]), (''C'', [None, None :: real option])])"
    by simp
  moreover have "set (map fst [(''A'', 4 :: real), (''B'', 3)]) \<subseteq>
      set (map fst [(''A'', [Some 1, None]), (''B'', [None, Some 3]), (''C'', [None, None :: real option])])"
    by simp
  ultimately have "\<exists>out. loocv_regression fit_record (predict_with sum_list)
      [(''A'', [Some 1, None]), (''B'', [None, Some 3]), (''C'', [None, None])]
      [(''A'', 4), (''B'', 3)] [] None = Inr out \<and>
    model_after out = [] @
      map (\<lambda>k. (spec_training_features (case None of None \<Rightarrow> 2 | Some c \<Rightarrow> c)
                  [(''A'', [Some 1, None]), (''B'', [None, Some 3]), (''C'', [None, None])]
                  [(''A'', 4), (''B'', 3)] k,
                spec_training_targets [(''A'', 4), (''B'', 3)] k))
        (map fst [(''A'', 4 :: real), (''B'', 3)]) \<and>
    stdout out =
      map (\<lambda>k. (k, sum_list (spec_filled_row (case None of None \<Rightarrow> 2 | Some c \<Rightarrow> c)
                  [(''A'', [Some 1, None]), (''B'', [None, Some 3]), (''C'', [None, None])] k)))
        (map fst [(''A'', 4 :: real), (''B'', 3)])"
    by (rule loocv_filled_once [THEN conjunct2])
  then show ?thesis
    by (simp add: spec_training_features_def spec_training_targets_def spec_filled_row_def)
qed

text \<open>
  C5 as stated does not hold: an empty target vector raises nothing. The loop body never
  runs, so the call returns the empty frame, leaves the model object as it found it and
  prints nothing.
\<close>

theorem loocv_empty_target_counterexample:
  "loocv_regression fit_sum predict_state [(''A'', [Some 1, None])] ([] :: string scores) 0 None =
     Inr \<lparr>result = [], model_after = 0, stdout = []\<rparr>"
  by (simp add: run_defs)

text \<open>
  C5, amended. For an empty target vector the call returns an empty prediction result:
  no fold is run, the model object is not fit, nothing is printed, and no error is raised.
\<close>

theorem loocv_empty_target:
  "loocv_regression fit predict data [] mdl fill =
     Inr \<lparr>result = [], model_after = mdl, stdout = []\<rparr>"
  by (simp add: loocv_regression_def sort_values_def)

text \<open>
  C2. The training sets, fold by fold. Run with the model object that records what it is
  fit on, a call on a feature matrix with unique keys that has a row for every target key
  fits once per row of the target vector, in order, and the fold that holds out \<open>k\<close>
  fits on the filled feature rows of the target keys other than \<open>k\<close> and on the scores
  of the target rows other than \<open>k\<close>: the row of \<open>k\<close> is in neither.
\<close>

theorem loocv_fit_calls:
  assumes dist: "distinct (map fst data)"
    and sub: "set (map fst my_ratings) \<subseteq> set (map fst data)"
  shows "\<exists>out. loocv_regression fit_record predict_zero data my_ratings seen fill = Inr out \<and>
    model_after out = seen @
      map (\<lambda>k. (map (\<lambda>k'. the (map_of (fillna (fill_value fill) data) k'))
                   (filter (\<lambda>k'. k' \<noteq> k) (map fst my_ratings)),
                map snd (filter (\<lambda>r. fst r \<noteq> k) my_ratings)))
        (map fst my_ratings)"
proof -
  let ?df = "fillna (fill_value fill) data"
  let ?st0 = "\<lparr>albums = [], predictions = [], model = seen, printed = []\<rparr>"
  have sub': "set (map fst my_ratings) \<subseteq> set (map fst ?df)"
    using sub by (simp add: map_fst_fillna)
  have dist': "distinct (map fst ?df)"
    using dist by (simp add: map_fst_fillna)
  have rows: "concat (map (\<lambda>l. filter (\<lambda>r. fst r = l) ?df) (map fst my_ratings)) =
      map (\<lambda>l. (l, the (map_of ?df l))) (map fst my_ratings)"
    using dist' sub' by (rule rows_distinct)
  from iterrows_record [OF sub', of my_ratings ?st0]
  obtain st where st: "iterrows fit_record predict_zero ?df my_ratings my_ratings ?st0 = Inr st"
    and m: "model st = seen @
        map (\<lambda>k. (map snd (filter (\<lambda>r. fst r \<noteq> k)
                     (concat (map (\<lambda>l. filter (\<lambda>r. fst r = l) ?df) (map fst my_ratings)))),
                  map snd (filter (\<lambda>r. fst r \<noteq> k) my_ratings)))
          (map fst my_ratings)"
    by auto
  from m have "model st = seen @
      map (\<lambda>k. (map (\<lambda>k'. the (map_of ?df k')) (filter (\<lambda>k'. k' \<noteq> k) (map fst my_ratings)),
                map snd (filter (\<lambda>r. fst r \<noteq> k) my_ratings)))
        (map fst my_ratings)"
    unfolding rows snd_filter_rows .
  with st show ?thesis
    by (simp add: loocv_regression_def)
qed

theorem loocv_fit_calls_witness:
  "\<exists>out. loocv_regression fit_record predict_zero
      [(''A'', [Some 1, Some 0]), (''B'', [None, Some 1]), (''C'', [Some 1, Some 1])]
      [(''A'', 1), (''B'', 2), (''C'', 3)] [] None = Inr out \<and>
    model_after out =
      [([[2, 1], [1, 1]], [2, 3]), ([[1, 0], [1, 1]], [1, 3]), ([[1, 0], [2, 1]], [1, 2])]"
  using loocv_fit_calls [of "[(''A'', [Some 1, Some 0]), (''B'', [None, Some 1]), (''C'', [Some 1, Some 1])]"
     "[(''A'', 1), (''B'', 2), (''C'', 3)]" "[]" None]
  by (simp add: fillna_def fill_value_def)




subsection \<open>Rounding\<close>

lemma rne_nonneg: "0 \<le> r \<Longrightarrow> 0 \<le> rne r"
  by (auto simp: rne_def Let_def)

lemma rne_of_int [simp]: "rne (of_int n) = n"
  by (simp add: rne_def)

lemma round64_zero [simp]: "round64 0 = Finite 0"
  by (simp add: round64_def)

lemma round64_not_NaN [simp]: "round64 x \<noteq> NaN"
  by (simp add: round64_def Let_def)

lemma round64_nonneg: "0 \<le> x \<Longrightarrow> f64_nonneg (round64 x)"
proof -
  assume x: "0 \<le> x"
  have "0 \<le> x / 2 powr of_int (ulp_exponent x)"
    using x by simp
  then have "0 \<le> rne (x / 2 powr of_int (ulp_exponent x))"
    by (rule rne_nonneg)
  then have "(0 :: real) \<le> of_int (rne (x / 2 powr of_int (ulp_exponent x))) * 2 powr of_int (ulp_exponent x)"
    by simp
  with x show ?thesis
    by (auto simp: round64_def Let_def)
qed

lemma fsub_self [simp]: "fsub (Finite a) (Finite a) = Finite 0"
  by (simp add: fsub_def)

lemma fsub_finite: "fsub (Finite a) (Finite b) = round64 (a - b)"
  by (simp add: fsub_def)

lemma fmul_self_nonneg: "r \<noteq> NaN \<Longrightarrow> f64_nonneg (fmul r r)"
  by (cases r) (simp_all add: round64_nonneg)

lemma fadd_nonneg: "f64_nonneg a \<Longrightarrow> f64_nonneg b \<Longrightarrow> f64_nonneg (fadd a b)"
  by (cases a; cases b) (simp_all add: round64_nonneg)

lemma foldl_fadd_nonneg:
  "f64_nonneg a \<Longrightarrow> \<forall>x\<in>set xs. f64_nonneg x \<Longrightarrow> f64_nonneg (foldl fadd a xs)"
  by (induction xs arbitrary: a) (simp_all add: fadd_nonneg)

lemma np_sum_nonneg: "\<forall>x\<in>set xs. f64_nonneg x \<Longrightarrow> f64_nonneg (np_sum xs)"
  unfolding np_sum_def by (rule foldl_fadd_nonneg) simp_all

lemma foldl_fadd_zero:
  "\<forall>x\<in>set xs. x = Finite 0 \<Longrightarrow> foldl fadd (Finite 0) xs = Finite 0"
  by (induction xs) simp_all

lemma np_sum_zero: "\<forall>x\<in>set xs. x = Finite 0 \<Longrightarrow> np_sum xs = Finite 0"
  unfolding np_sum_def by (rule foldl_fadd_zero)

lemma fdiv_nonneg: "f64_nonneg a \<Longrightarrow> 0 < n \<Longrightarrow> f64_nonneg (fdiv a (Finite n))"
  by (cases a) (simp_all add: round64_nonneg)

lemma fsqrt_nonneg: "f64_nonneg a \<Longrightarrow> f64_nonneg (fsqrt a)"
  by (cases a) (simp_all add: round64_nonneg)

lemma round64_representable:
  assumes m: "\<bar>m\<bar> < 2 ^ 53" and k: "- 1074 \<le> k"
    and r: "\<bar>of_int m * 2 powr of_int k\<bar> < (2 :: real) ^ 1024"
  shows "round64 (of_int m * 2 powr of_int k) = Finite (of_int m * 2 powr of_int k)"
proof (cases "m = 0")
  case True
  then show ?thesis by simp
next
  case False
  let ?x = "of_int m * 2 powr of_int k :: real"
  have x0: "?x \<noteq> 0" using False by simp
  have ax: "\<bar>?x\<bar> = of_int \<bar>m\<bar> * 2 powr of_int k"
    by (simp add: abs_mult)
  have "of_int \<bar>m\<bar> < (2 :: real) ^ 53"
    using m by (metis of_int_less_numeral_power_cancel_iff)
  then have "\<bar>?x\<bar> < 2 ^ 53 * 2 powr of_int k"
    unfolding ax by simp
  also have "\<dots> = 2 powr (of_int (52 + k) + 1)"
    by (simp add: powr_add powr_realpow [symmetric])
  finally have lt: "\<bar>?x\<bar> < 2 powr (of_int (52 + k) + 1)" .
  have "\<lfloor>log 2 \<bar>?x\<bar>\<rfloor> \<le> 52 + k"
  proof -
    have "log 2 \<bar>?x\<bar> < of_int (52 + k) + 1"
      using lt x0 by (simp add: log_less_iff)
    then show ?thesis
      by (simp add: floor_le_iff)
  qed
  with k have ue: "ulp_exponent ?x \<le> k"
    by (simp add: ulp_exponent_def)
  define e where "e = ulp_exponent ?x"
  define u :: real where "u = 2 powr of_int e"
  define j where "j = nat (k - e)"
  have kj: "k = e + int j"
    using ue by (simp add: j_def e_def)
  have upos: "0 < u" by (simp add: u_def)
  have pk: "2 powr of_int k = u * 2 ^ j"
    unfolding u_def by (subst kj) (simp add: powr_add powr_realpow)
  have "?x / u = of_int m * (u * 2 ^ j) / u"
    by (simp only: pk)
  also have "\<dots> = of_int (m * 2 ^ j)"
    using upos by simp
  finally have q: "?x / u = of_int (m * 2 ^ j)" .
  have "of_int (rne (?x / u)) * u = of_int m * (u * 2 ^ j)"
    unfolding q rne_of_int by simp
  then have "of_int (rne (?x / u)) * u = ?x"
    by (simp only: pk)
  with x0 r show ?thesis
    unfolding round64_def Let_def e_def [symmetric] u_def [symmetric] by simp
qed

lemma round64_int: "\<bar>m\<bar> < 2 ^ 53 \<Longrightarrow> round64 (of_int m) = Finite (of_int m)"
proof -
  assume m: "\<bar>m\<bar> < 2 ^ 53"
  then have "\<bar>of_int m :: real\<bar> < 2 ^ 53"
    by (metis of_int_abs of_int_less_numeral_power_cancel_iff)
  also have "\<dots> < (2 :: real) ^ 1024" by simp
  finally have "\<bar>of_int m * 2 powr of_int 0\<bar> < (2 :: real) ^ 1024" by simp
  from round64_representable [OF m _ this] show ?thesis by simp
qed

lemma round64_numeral [simp]:
  "(numeral n :: int) < 2 ^ 53 \<Longrightarrow> round64 (numeral n) = Finite (numeral n)"
  using round64_int [of "numeral n"] by simp

lemma round64_neg_numeral [simp]:
  "(numeral n :: int) < 2 ^ 53 \<Longrightarrow> round64 (- numeral n) = Finite (- numeral n)"
  using round64_int [of "- numeral n"] by simp

lemma round64_one [simp]: "round64 1 = Finite 1"
  using round64_int [of 1] by simp

lemma round64_neg_one [simp]: "round64 (- 1) = Finite (- 1)"
  using round64_int [of "- 1"] by simp

lemma round64_inverse_power:
  "n \<le> 1074 \<Longrightarrow> round64 (s / 2 ^ n) = Finite (s / 2 ^ n)" if "s = 1 \<or> s = - 1"
proof -
  assume n: "n \<le> 1074"
  have p: "(2 :: real) powr of_int (- int n) = 1 / 2 ^ n"
    by (simp add: powr_minus powr_realpow inverse_eq_divide)
  have "(1 :: real) / 2 ^ n \<le> 1" by simp
  also have "\<dots> < (2 :: real) ^ 1024" by simp
  finally have b: "\<bar>of_int (if s = 1 then 1 else - 1) * 2 powr of_int (- int n)\<bar> < (2 :: real) ^ 1024"
    unfolding p by (simp add: abs_mult)
  have "\<bar>if s = 1 then 1 else - 1 :: int\<bar> < 2 ^ 53" by simp
  from round64_representable [OF this _ b] n that show ?thesis
    unfolding p by auto
qed

lemma rne_small: "0 \<le> r \<Longrightarrow> r < 1 / 2 \<Longrightarrow> rne r = 0"
proof -
  assume r: "0 \<le> r" "r < 1 / 2"
  then have "\<lfloor>r\<rfloor> = 0"
    by (simp add: floor_eq_iff)
  with r show ?thesis
    by (simp add: rne_def)
qed

lemma round64_tiny_powr:
  assumes "0 < x" and "x < 2 powr (- 1075)"
  shows "round64 x = Finite 0"
proof -
  have "log 2 \<bar>x\<bar> < - 1075"
    using assms by (simp add: log_less_iff)
  then have "log 2 \<bar>x\<bar> < of_int (- 1074)"
    by simp
  then have "\<lfloor>log 2 \<bar>x\<bar>\<rfloor> < - 1074"
    by (simp only: floor_less_iff)
  then have ue: "ulp_exponent x = - 1074"
    unfolding ulp_exponent_def by linarith
  define u :: real where "u = 2 powr (- 1074)"
  have upos: "0 < u" by (simp add: u_def)
  have "x / u < 2 powr (- 1075) / u"
    using assms upos by (simp add: divide_strict_right_mono)
  also have "2 powr (- 1075) / u = 2 powr (- 1075 - (- 1074))"
    unfolding u_def by (rule powr_diff [symmetric])
  also have "\<dots> = 1 / 2"
    by (simp add: powr_minus inverse_eq_divide)
  finally have "x / u < 1 / 2" .
  moreover have "0 \<le> x / u"
    using assms upos by simp
  ultimately have "rne (x / u) = 0"
    by (rule rne_small [rotated])
  with assms show ?thesis
    by (simp add: round64_def ue u_def)
qed

lemma round64_tiny:
  assumes "0 < x" and "x < 1 / 2 ^ 1075"
  shows "round64 x = Finite 0"
proof -
  have "(2 :: real) powr (- 1075) = 1 / 2 ^ 1075"
    using powr_realpow [of 2 1075] by (simp add: powr_minus inverse_eq_divide)
  with assms round64_tiny_powr show ?thesis by simp
qed

subsection \<open>The joined frame and the metrics\<close>

lemma those_map_Some: "those (map Some xs) = Some xs"
  by (induction xs) simp_all

lemma concat_axis1_matching:
  assumes dp: "distinct (map fst preds)" and dr: "distinct (map fst my_ratings)"
    and keys: "set (map fst preds) = set (map fst my_ratings)"
  shows "concat_axis1 preds my_ratings =
     Inr (map (\<lambda>p. (fst p, Some (snd p), Some (the (map_of my_ratings (fst p))))) preds)"
proof (cases "map fst preds = map fst my_ratings")
  case True
  then have len: "length preds = length my_ratings"
    by (metis length_map)
  have "map (\<lambda>(p, s). (fst p, Some (snd p), Some (snd s))) (zip preds my_ratings) =
        map (\<lambda>p. (fst p, Some (snd p), Some (the (map_of my_ratings (fst p))))) preds"
  proof (rule nth_equalityI)
    show "length (map (\<lambda>(p, s). (fst p, Some (snd p), Some (snd s))) (zip preds my_ratings)) =
          length (map (\<lambda>p. (fst p, Some (snd p), Some (the (map_of my_ratings (fst p))))) preds)"
      using len by simp
  next
    fix i
    assume "i < length (map (\<lambda>(p, s). (fst p, Some (snd p), Some (snd s))) (zip preds my_ratings))"
    then have i: "i < length preds" "i < length my_ratings" by simp_all
    from True i have "fst (preds ! i) = fst (my_ratings ! i)"
      by (metis nth_map)
    moreover from i have "(fst (my_ratings ! i), snd (my_ratings ! i)) \<in> set my_ratings"
      by simp
    then have "map_of my_ratings (fst (my_ratings ! i)) = Some (snd (my_ratings ! i))"
      using dr by simp
    ultimately show "map (\<lambda>(p, s). (fst p, Some (snd p), Some (snd s))) (zip preds my_ratings) ! i =
        map (\<lambda>p. (fst p, Some (snd p), Some (the (map_of my_ratings (fst p))))) preds ! i"
      using i by simp
  qed
  with True show ?thesis by (simp add: concat_axis1_def)
next
  case False
  have "filter (\<lambda>k. k \<notin> set (map fst preds)) (map fst my_ratings) = []"
    using keys by (simp add: filter_empty_conv)
  moreover have "map (\<lambda>k. (k, map_of preds k, map_of my_ratings k)) (map fst preds) =
      map (\<lambda>p. (fst p, Some (snd p), Some (the (map_of my_ratings (fst p))))) preds"
  proof -
    have "(fst p, map_of preds (fst p), map_of my_ratings (fst p)) =
          (fst p, Some (snd p), Some (the (map_of my_ratings (fst p))))" if "p \<in> set preds" for p
    proof -
      from that have "(fst p, snd p) \<in> set preds" by simp
      with dp have "map_of preds (fst p) = Some (snd p)" by simp
      moreover from that keys have "fst p \<in> fst ` set my_ratings" by auto
      then have "map_of my_ratings (fst p) \<noteq> None"
        by (simp add: map_of_eq_None_iff)
      ultimately show ?thesis by auto
    qed
    then show ?thesis by (simp add: comp_def)
  qed
  ultimately show ?thesis
    using False dp dr by (simp add: concat_axis1_def)
qed

lemma check_reg_targets_present:
  "length t = length p \<Longrightarrow> t \<noteq> [] \<Longrightarrow>
   check_reg_targets (map Some t) (map Some p) = Inr (t, p)"
  by (auto simp: check_reg_targets_def those_map_Some)

lemma squared_errors_nonneg: "\<forall>x\<in>set (squared_errors t p). f64_nonneg x"
  by (auto simp: squared_errors_def fsub_finite Let_def intro!: fmul_self_nonneg dest!: set_zip_leftD)

lemma squared_errors_same: "\<forall>x\<in>set (squared_errors t t). x = Finite 0"
  by (auto simp: squared_errors_def zip_same_conv_map)

lemma rmse_nonneg:
  assumes "length t = length p" and "t \<noteq> []"
  shows "f64_nonneg (fsqrt (np_average (squared_errors t p)))"
proof -
  from assms have "squared_errors t p \<noteq> []"
    by (cases t; cases p) (simp_all add: squared_errors_def)
  then have "0 < real (length (squared_errors t p))" by simp
  then show ?thesis
    unfolding np_average_def
    by (intro fsqrt_nonneg fdiv_nonneg np_sum_nonneg squared_errors_nonneg)
qed

lemma np_average_zero: "xs \<noteq> [] \<Longrightarrow> np_sum xs = Finite 0 \<Longrightarrow> np_average xs = Finite 0"
  by (simp add: np_average_def)

lemma evaluate_matching:
  assumes dp: "distinct (map fst preds)" and dr: "distinct (map fst my_ratings)"
    and keys: "set (map fst preds) = set (map fst my_ratings)"
    and ne: "my_ratings \<noteq> []"
  shows "\<exists>t r2. length t = length preds \<and> t \<noteq> [] \<and>
     t = map (\<lambda>p. the (map_of my_ratings (fst p))) preds \<and>
     r2_score (map Some t) (map Some (map snd preds)) = Inr r2 \<and>
     evaluate preds my_ratings =
       Inr (r2, fsqrt (np_average (squared_errors t (map snd preds))))"
proof -
  let ?t = "map (\<lambda>p. the (map_of my_ratings (fst p))) preds"
  let ?p = "map snd preds"
  let ?df = "map (\<lambda>p. (fst p, Some (snd p), Some (the (map_of my_ratings (fst p))))) preds"
  have df: "concat_axis1 preds my_ratings = Inr ?df"
    using dp dr keys by (rule concat_axis1_matching)
  from ne keys have pne: "preds \<noteq> []" by auto
  then have tne: "?t \<noteq> []" by simp
  have len: "length ?t = length ?p" by simp
  have cols: "map (\<lambda>r. snd (snd r)) ?df = map Some ?t" "map (\<lambda>r. fst (snd r)) ?df = map Some ?p"
    by (simp_all add: comp_def)
  have chk: "check_reg_targets (map Some ?t) (map Some ?p) = Inr (?t, ?p)"
    using len tne by (rule check_reg_targets_present)
  have "\<exists>r2. r2_score (map Some ?t) (map Some ?p) = Inr r2"
    unfolding r2_score_def chk by (simp add: Let_def)
  then obtain r2 where r2: "r2_score (map Some ?t) (map Some ?p) = Inr r2" ..
  have mse: "mean_squared_error (map Some ?t) (map Some ?p) =
      Inr (fsqrt (np_average (squared_errors ?t ?p)))"
    unfolding mean_squared_error_def chk by simp
  have "evaluate preds my_ratings = Inr (r2, fsqrt (np_average (squared_errors ?t ?p)))"
    unfolding evaluate_def df sum.case cols r2 mse by simp
  with r2 tne show ?thesis by auto
qed

lemma r2_score_few:
  assumes "length t = length p" and "t \<noteq> []" and "length p < 2"
  shows "r2_score (map Some t) (map Some p) = Inr NaN"
  using assms by (simp add: r2_score_def check_reg_targets_present)

lemma r2_score_same:
  assumes "t \<noteq> []" and "2 \<le> length t"
  shows "r2_score (map Some t) (map Some t) = Inr (Finite 1)"
proof -
  have "np_sum (squared_errors t t) = Finite 0"
    by (intro np_sum_zero squared_errors_same)
  with assms show ?thesis
    by (simp add: r2_score_def check_reg_targets_present Let_def)
qed

lemma rmse_same: "t \<noteq> [] \<Longrightarrow> fsqrt (np_average (squared_errors t t)) = Finite 0"
proof -
  assume t: "t \<noteq> []"
  have "np_sum (squared_errors t t) = Finite 0"
    by (intro np_sum_zero squared_errors_same)
  moreover from t have "squared_errors t t \<noteq> []"
    by (simp add: squared_errors_def)
  ultimately have "np_average (squared_errors t t) = Finite 0"
    by (intro np_average_zero)
  then show ?thesis by simp
qed

lemma perfect_iff:
  assumes dp: "distinct (map fst preds)"
    and keys: "set (map fst preds) = set (map fst my_ratings)"
  shows "(\<forall>p\<in>set preds. the (map_of my_ratings (fst p)) = snd p) \<longleftrightarrow>
         (\<forall>k\<in>set (map fst my_ratings). map_of preds k = map_of my_ratings k)"
proof
  assume l: "\<forall>p\<in>set preds. the (map_of my_ratings (fst p)) = snd p"
  show "\<forall>k\<in>set (map fst my_ratings). map_of preds k = map_of my_ratings k"
  proof
    fix k assume "k \<in> set (map fst my_ratings)"
    with keys have "k \<in> fst ` set preds" by simp
    then obtain v where v: "(k, v) \<in> set preds" by auto
    with dp have 1: "map_of preds k = Some v" by simp
    from \<open>k \<in> set (map fst my_ratings)\<close> have "map_of my_ratings k \<noteq> None"
      by (simp add: map_of_eq_None_iff)
    then obtain s where s: "map_of my_ratings k = Some s" by auto
    with l v have "s = v" by force
    with 1 s show "map_of preds k = map_of my_ratings k" by simp
  qed
next
  assume r: "\<forall>k\<in>set (map fst my_ratings). map_of preds k = map_of my_ratings k"
  show "\<forall>p\<in>set preds. the (map_of my_ratings (fst p)) = snd p"
  proof
    fix p assume p: "p \<in> set preds"
    then have "(fst p, snd p) \<in> set preds" by simp
    with dp have "map_of preds (fst p) = Some (snd p)" by simp
    moreover from p keys have "fst p \<in> set (map fst my_ratings)" by auto
    ultimately show "the (map_of my_ratings (fst p)) = snd p"
      using r by (metis option.sel)
  qed
qed

lemma length_matching:
  assumes "distinct (map fst preds)" "distinct (map fst my_ratings)"
    "set (map fst preds) = set (map fst my_ratings)"
  shows "length preds = length my_ratings"
  using assms by (metis distinct_card length_map)

lemma two_rows:
  assumes "a \<in> set xs" "b \<in> set xs" "a \<noteq> b"
  shows "2 \<le> length xs"
proof (cases xs)
  case Nil
  with assms show ?thesis by simp
next
  case (Cons x ys)
  with assms have "ys \<noteq> []" by auto
  with Cons show ?thesis by (cases ys) simp_all
qed

lemma perfect_columns:
  assumes dp: "distinct (map fst preds)"
    and keys: "set (map fst preds) = set (map fst my_ratings)"
    and perfect: "\<forall>k\<in>set (map fst my_ratings). map_of preds k = map_of my_ratings k"
  shows "map (\<lambda>p. the (map_of my_ratings (fst p))) preds = map snd preds"
  using perfect_iff [OF dp keys] perfect by simp

lemmas evaluate_defs =
  evaluate_def concat_axis1_def r2_score_def mean_squared_error_def check_reg_targets_def
  squared_errors_def np_sum_def np_average_def fsub_def

subsection \<open>Claims about \<^verbatim>\<open>evaluate\<close>\<close>




text \<open>
  C4 as stated does not hold: a ground truth whose values are all equal raises nothing.
  scikit-learn's \<^verbatim>\<open>r2_score\<close> does not divide by the zero denominator, and
  \<^verbatim>\<open>evaluate\<close> has no check of its own. For the ground truth of the specification's
  example and predictions that are all 4, it returns an \<open>R\<^sup>2\<close> of 0 and an RMSE of 1.
\<close>

theorem evaluate_degenerate_counterexample:
  "evaluate [(''A'', 4), (''B'', 4), (''C'', 4)] [(''A'', 3), (''B'', 3), (''C'', 3)] =
     Inr (Finite 0, Finite 1)"
  by (simp add: evaluate_defs)

text \<open>
  C4, amended. For predictions and ground truth over the same keys, each key once, where
  every ground-truth value is the same \<open>c\<close>, \<^verbatim>\<open>evaluate\<close> does not fail: it returns an
  \<open>R\<^sup>2\<close> and an RMSE that is not negative. The \<open>R\<^sup>2\<close> is \<^verbatim>\<open>NaN\<close> with a single key. With
  two keys or more it is 1, and the RMSE 0, when every prediction is \<open>c\<close>.
\<close>

theorem evaluate_constant_truth:
  assumes dp: "distinct (map fst preds)" and dr: "distinct (map fst my_ratings)"
    and keys: "set (map fst preds) = set (map fst my_ratings)"
    and ne: "my_ratings \<noteq> []"
    and const: "\<forall>r\<in>set my_ratings. snd r = c"
  shows "\<exists>r2 rmse. evaluate preds my_ratings = Inr (r2, rmse) \<and> f64_nonneg rmse \<and>
     (length my_ratings < 2 \<longrightarrow> r2 = NaN) \<and>
     (2 \<le> length my_ratings \<and> (\<forall>p\<in>set preds. snd p = c) \<longrightarrow> r2 = Finite 1 \<and> rmse = Finite 0)"
proof -
  let ?p = "map snd preds"
  from evaluate_matching [OF dp dr keys ne] obtain t r2 where
    t: "length t = length preds" "t \<noteq> []" "t = map (\<lambda>p. the (map_of my_ratings (fst p))) preds"
    and r2: "r2_score (map Some t) (map Some ?p) = Inr r2"
    and ev: "evaluate preds my_ratings = Inr (r2, fsqrt (np_average (squared_errors t ?p)))"
    by blast
  have len: "length t = length my_ratings"
    using length_matching [OF dp dr keys] t(1) by simp
  have tc: "the (map_of my_ratings (fst p)) = c" if "p \<in> set preds" for p
  proof -
    from that keys have "fst p \<in> fst ` set my_ratings" by auto
    then obtain s where s: "(fst p, s) \<in> set my_ratings" by auto
    with dr have "map_of my_ratings (fst p) = Some s" by simp
    moreover from s const have "s = c" by auto
    ultimately show ?thesis by simp
  qed
  have nn: "f64_nonneg (fsqrt (np_average (squared_errors t ?p)))"
    using t(1,2) by (intro rmse_nonneg) simp_all
  have few: "r2 = NaN" if "length my_ratings < 2"
  proof -
    from that len t(1) have "length ?p < 2" by simp
    with r2_score_few [of t ?p] t(1,2) r2 show ?thesis by simp
  qed
  have same: "r2 = Finite 1 \<and> fsqrt (np_average (squared_errors t ?p)) = Finite 0"
    if "2 \<le> length my_ratings" and "\<forall>p\<in>set preds. snd p = c"
  proof -
    from that(2) tc t(3) have eq: "?p = t" by simp
    from that(1) len have "2 \<le> length t" by simp
    from r2 r2_score_same [OF t(2) this] have "r2 = Finite 1"
      unfolding eq by simp
    moreover have "fsqrt (np_average (squared_errors t ?p)) = Finite 0"
      unfolding eq using t(2) by (rule rmse_same)
    ultimately show ?thesis by simp
  qed
  from ev nn few same show ?thesis by blast
qed

theorem evaluate_constant_truth_witness:
  "evaluate [(''C'', 3), (''A'', 3), (''B'', 3)] [(''A'', 3), (''B'', 3), (''C'', 3)] =
     Inr (Finite 1, Finite 0)"
proof -
  have keys: "set (map fst [(''C'', 3 :: real), (''A'', 3), (''B'', 3)]) =
      set (map fst [(''A'', 3 :: real), (''B'', 3), (''C'', 3)])"
    by auto
  from evaluate_constant_truth [of "[(''C'', 3), (''A'', 3), (''B'', 3)]"
      "[(''A'', 3), (''B'', 3), (''C'', 3)]" 3, OF _ _ keys]
  obtain r2 rmse where
    "evaluate [(''C'', 3), (''A'', 3), (''B'', 3)] [(''A'', 3), (''B'', 3), (''C'', 3)] = Inr (r2, rmse)"
    "r2 = Finite 1" "rmse = Finite 0"
    by auto
  then show ?thesis by simp
qed

end
